theory Spec2Isabelle
  imports Complex_Main "HOL-Library.AList"
begin

section \<open>Values of the program\<close>

text \<open>
  A flow record is the JSON object of one Kafka message after \<open>json.loads\<close>, restricted to
  the three keys the detection reads. The stream has already passed the filter that keeps
  only objects with both address keys; the addresses are strings and the packet count is
  present and an integer, as the flow collector sends them.
\<close>

record flow =
  sourceIPv4Address :: string
  destinationIPv4Address :: string
  packetDeltaCount :: int

datatype error = ZeroDivisionError

text \<open>
  The values of the short window are Python 3-tuples \<open>(incoming, outgoing, sources)\<close>.
  The values that travel through the long window are either such a 3-tuple, untouched, or
  the 2-tuple built by the reducing lambda of the long window.
\<close>

type_synonym short_stats = "int \<times> int \<times> string set"

datatype long_stats = Tuple3 int int "string set" | Tuple2 int int

fun item0 :: "long_stats \<Rightarrow> int" where
  "item0 (Tuple3 a b s) = a"
| "item0 (Tuple2 a b) = a"

fun item1 :: "long_stats \<Rightarrow> int" where
  "item1 (Tuple3 a b s) = b"
| "item1 (Tuple2 a b) = b"

fun holds_sources :: "long_stats \<Rightarrow> bool" where
  "holds_sources (Tuple3 a b s) = True"
| "holds_sources (Tuple2 a b) = False"

text \<open>
  Python's float arithmetic is a parameter of the model: \<open>to_float\<close> is \<open>float(x)\<close> on an
  integer (also the implicit coercion of an integer operand), \<open>fdiv\<close>, \<open>fmul\<close> and \<open>fgt\<close>
  are \<open>/\<close>, \<open>*\<close> and \<open>>\<close> on floats. Nothing is assumed about them.
\<close>

record 'f float_ops =
  to_float :: "int \<Rightarrow> 'f"
  fdiv :: "'f \<Rightarrow> 'f \<Rightarrow> 'f"
  fmul :: "'f \<Rightarrow> 'f \<Rightarrow> 'f"
  fgt :: "'f \<Rightarrow> 'f \<Rightarrow> bool"

text \<open>The same operations without rounding, for inputs on which floats do not round.\<close>

definition exact_ops :: "real float_ops" where
  "exact_ops = \<lparr>to_float = real_of_int, fdiv = (\<lambda>x y. x / y), fmul = (\<lambda>x y. x * y),
     fgt = (\<lambda>x y. x > y)\<rparr>"

text \<open>\<open>float(a) / b\<close> for integers \<open>a\<close> and \<open>b\<close>: raises when \<open>b\<close> is zero.\<close>

definition py_fdiv :: "'f float_ops \<Rightarrow> int \<Rightarrow> int \<Rightarrow> error + 'f" where
  "py_fdiv ops a b =
     (if b = 0 then Inl ZeroDivisionError
      else Inr (fdiv ops (to_float ops a) (to_float ops b)))"

section \<open>Method parameters\<close>

definition threshold :: int where
  "threshold = 50"

definition minimal_incoming :: int where
  "minimal_incoming = 100000"

definition long_window_length :: nat where
  "long_window_length = 7200"

definition base_window_length :: nat where
  "base_window_length = 30"

section \<open>The Spark operations the detection uses\<close>

text \<open>
  An RDD of pairs is a list of pairs. \<open>reduceByKey\<close> is Spark's \<open>combineByKey\<close> with the
  identity as combiner creator: the first value of a key is stored as it is, and the
  function is applied only from the second value of that key on. Spark may reduce the
  values of a key in another order or grouping; the two reducing lambdas of the detection
  add componentwise, so the counts and the source set do not depend on that, and a key with
  a single value is never passed to the lambda in any case.
\<close>

fun merge_value :: "('v \<Rightarrow> 'v \<Rightarrow> 'v) \<Rightarrow> 'k \<Rightarrow> 'v \<Rightarrow> ('k \<times> 'v) list \<Rightarrow> ('k \<times> 'v) list" where
  "merge_value f k v [] = [(k, v)]"
| "merge_value f k v ((k', a) # d) =
     (if k' = k then (k', f a v) # d else (k', a) # merge_value f k v d)"

definition reduceByKey :: "('v \<Rightarrow> 'v \<Rightarrow> 'v) \<Rightarrow> ('k \<times> 'v) list \<Rightarrow> ('k \<times> 'v) list" where
  "reduceByKey f xs = foldl (\<lambda>d (k, v). merge_value f k v d) [] xs"

definition union_rdd :: "'a list \<Rightarrow> 'a list \<Rightarrow> 'a list" where
  "union_rdd xs ys = xs @ ys"

definition join :: "('k \<times> 'v) list \<Rightarrow> ('k \<times> 'w) list \<Rightarrow> ('k \<times> 'v \<times> 'w) list" where
  "join xs ys =
     concat (map (\<lambda>(k, v). map (\<lambda>(k', w). (k, (v, w))) (filter (\<lambda>(k', w). k' = k) ys)) xs)"

text \<open>
  A windowed stream at a tick: the RDDs of the parent stream that fall into the window,
  newest first in \<open>hist\<close>, united in the order of their arrival.
\<close>

definition window :: "nat \<Rightarrow> nat \<Rightarrow> 'a list list \<Rightarrow> 'a list" where
  "window len slide hist = concat (rev (take (len div slide) hist))"

text \<open>A filter whose predicate may raise: the first exception ends the job.\<close>

fun filter_rdd :: "('a \<Rightarrow> error + bool) \<Rightarrow> 'a list \<Rightarrow> error + 'a list" where
  "filter_rdd p [] = Inr []"
| "filter_rdd p (x # xs) =
     (case p x of
        Inl e \<Rightarrow> Inl e
      | Inr b \<Rightarrow>
          (case filter_rdd p xs of
             Inl e \<Rightarrow> Inl e
           | Inr ys \<Rightarrow> Inr (if b then x # ys else ys)))"

definition collectAsMap :: "('k \<times> 'v) list \<Rightarrow> ('k \<times> 'v) list" where
  "collectAsMap xs = foldl (\<lambda>d (k, v). AList.update k v d) [] xs"

section \<open>inspect_ddos\<close>

definition incoming_small_flows_stats ::
  "(string \<Rightarrow> bool) \<Rightarrow> flow list \<Rightarrow> (string \<times> short_stats) list" where
  "incoming_small_flows_stats local_ip_pattern small_window =
     map (\<lambda>j. (destinationIPv4Address j, (packetDeltaCount j, 0, {sourceIPv4Address j})))
       (filter (\<lambda>j. local_ip_pattern (destinationIPv4Address j)) small_window)"

definition outgoing_small_flows_stats ::
  "(string \<Rightarrow> bool) \<Rightarrow> flow list \<Rightarrow> (string \<times> short_stats) list" where
  "outgoing_small_flows_stats local_ip_pattern small_window =
     map (\<lambda>j. (sourceIPv4Address j, (0, packetDeltaCount j, {})))
       (filter (\<lambda>j. local_ip_pattern (sourceIPv4Address j)) small_window)"

definition short_merge :: "short_stats \<Rightarrow> short_stats \<Rightarrow> short_stats" where
  "short_merge actual update =
     (fst actual + fst update,
      fst (snd actual) + fst (snd update),
      snd (snd actual) \<union> snd (snd update))"

definition small_window_aggregated ::
  "(string \<Rightarrow> bool) \<Rightarrow> flow list \<Rightarrow> (string \<times> short_stats) list" where
  "small_window_aggregated local_ip_pattern small_window =
     reduceByKey short_merge
       (union_rdd (incoming_small_flows_stats local_ip_pattern small_window)
          (outgoing_small_flows_stats local_ip_pattern small_window))"

definition long_merge :: "long_stats \<Rightarrow> long_stats \<Rightarrow> long_stats" where
  "long_merge actual update =
     Tuple2 (item0 actual + item0 update) (item1 actual + item1 update)"

text \<open>
  The long window takes the aggregated short windows themselves, so its elements are the
  3-tuples of the short window; \<open>as_long\<close> only changes the type they are read at.
\<close>

definition as_long :: "string \<times> short_stats \<Rightarrow> string \<times> long_stats" where
  "as_long kv = (case kv of (k, (a, b, s)) \<Rightarrow> (k, Tuple3 a b s))"

definition union_long_flows ::
  "(string \<Rightarrow> bool) \<Rightarrow> flow list list \<Rightarrow> (string \<times> long_stats) list" where
  "union_long_flows local_ip_pattern hist =
     window long_window_length base_window_length
       (map (\<lambda>w. map as_long (small_window_aggregated local_ip_pattern w)) hist)"

definition long_window_aggregated ::
  "(string \<Rightarrow> bool) \<Rightarrow> flow list list \<Rightarrow> (string \<times> long_stats) list" where
  "long_window_aggregated local_ip_pattern hist =
     reduceByKey long_merge (union_long_flows local_ip_pattern hist)"

text \<open>
  At a tick the history \<open>cur # past\<close> holds the base windows seen so far, newest first;
  \<open>cur\<close> is the base window that has just closed.
\<close>

definition windows_union ::
  "(string \<Rightarrow> bool) \<Rightarrow> flow list \<Rightarrow> flow list list \<Rightarrow>
     (string \<times> short_stats \<times> long_stats) list" where
  "windows_union local_ip_pattern cur past =
     join (small_window_aggregated local_ip_pattern cur)
       (long_window_aggregated local_ip_pattern (cur # past))"

definition nonzero_union ::
  "(string \<Rightarrow> bool) \<Rightarrow> flow list \<Rightarrow> flow list list \<Rightarrow>
     (string \<times> short_stats \<times> long_stats) list" where
  "nonzero_union local_ip_pattern cur past =
     filter (\<lambda>rdd. fst (snd (fst (snd rdd))) \<noteq> 0 \<and> item1 (snd (snd rdd)) \<noteq> 0)
       (windows_union local_ip_pattern cur past)"

definition suspicious ::
  "'f float_ops \<Rightarrow> string \<times> short_stats \<times> long_stats \<Rightarrow> error + bool" where
  "suspicious ops rdd =
     (let short = fst (snd rdd); long = snd (snd rdd) in
      if fst short > minimal_incoming then
        (case py_fdiv ops (fst short) (fst (snd short)) of
           Inl e \<Rightarrow> Inl e
         | Inr short_ratio \<Rightarrow>
             (case py_fdiv ops (item0 long) (item1 long) of
                Inl e \<Rightarrow> Inl e
              | Inr long_ratio \<Rightarrow>
                  Inr (fgt ops short_ratio (fmul ops long_ratio (to_float ops threshold)))))
      else Inr False)"

definition inspect_ddos ::
  "'f float_ops \<Rightarrow> (string \<Rightarrow> bool) \<Rightarrow> flow list \<Rightarrow> flow list list \<Rightarrow>
     error + (string \<times> short_stats \<times> long_stats) list" where
  "inspect_ddos ops local_ip_pattern cur past =
     filter_rdd (suspicious ops) (nonzero_union local_ip_pattern cur past)"

section \<open>print_and_send\<close>

record 'f alert =
  dst_ip :: string
  shortratio :: 'f
  longratio :: 'f
  attackers :: "string set"

definition new_entry ::
  "'f float_ops \<Rightarrow> string \<times> short_stats \<times> long_stats \<Rightarrow> error + 'f alert" where
  "new_entry ops item =
     (let host = fst item; stats = snd item in
      case py_fdiv ops (fst (fst stats)) (fst (snd (fst stats))) of
        Inl e \<Rightarrow> Inl e
      | Inr short_ratio \<Rightarrow>
          (case py_fdiv ops (item0 (snd stats)) (item1 (snd stats)) of
             Inl e \<Rightarrow> Inl e
           | Inr long_ratio \<Rightarrow>
               Inr \<lparr>dst_ip = host, shortratio = short_ratio, longratio = long_ratio,
                    attackers = snd (snd (fst stats))\<rparr>))"

fun results_of ::
  "'f float_ops \<Rightarrow> (string \<times> short_stats \<times> long_stats) list \<Rightarrow> error + 'f alert list" where
  "results_of ops [] = Inr []"
| "results_of ops (item # rest) =
     (case new_entry ops item of
        Inl e \<Rightarrow> Inl e
      | Inr a \<Rightarrow>
          (case results_of ops rest of
             Inl e \<Rightarrow> Inl e
           | Inr as \<Rightarrow> Inr (a # as)))"

definition print_and_send ::
  "'f float_ops \<Rightarrow> (string \<times> short_stats \<times> long_stats) list \<Rightarrow> error + 'f alert list" where
  "print_and_send ops rdd = results_of ops (collectAsMap rdd)"

text \<open>One tick of the job: the detection, then \<open>foreachRDD\<close> hands its RDD to the sender.\<close>

definition ddos_result ::
  "'f float_ops \<Rightarrow> (string \<Rightarrow> bool) \<Rightarrow> flow list \<Rightarrow> flow list list \<Rightarrow>
     error + 'f alert list" where
  "ddos_result ops local_ip_pattern cur past =
     (case inspect_ddos ops local_ip_pattern cur past of
        Inl e \<Rightarrow> Inl e
      | Inr rdd \<Rightarrow> print_and_send ops rdd)"

section \<open>Notions used to state the properties\<close>

text \<open>
  The values an RDD holds for one key, in the order of the RDD; the flow records of a base
  window that make an incoming, respectively outgoing, element for a host; the short counts
  of a host in a base window, zero when the host has no entry.
\<close>

definition vals :: "'k \<Rightarrow> ('k \<times> 'v) list \<Rightarrow> 'v list" where
  "vals k xs = map snd (filter (\<lambda>p. fst p = k) xs)"

definition inbound_events :: "(string \<Rightarrow> bool) \<Rightarrow> flow list \<Rightarrow> string \<Rightarrow> flow list" where
  "inbound_events pat w h =
     filter (\<lambda>j. pat (destinationIPv4Address j) \<and> destinationIPv4Address j = h) w"

definition outbound_events :: "(string \<Rightarrow> bool) \<Rightarrow> flow list \<Rightarrow> string \<Rightarrow> flow list" where
  "outbound_events pat w h =
     filter (\<lambda>j. pat (sourceIPv4Address j) \<and> sourceIPv4Address j = h) w"

definition total3 :: "short_stats list \<Rightarrow> short_stats" where
  "total3 vs = (sum_list (map fst vs), sum_list (map (\<lambda>v. fst (snd v)) vs),
     \<Union> (set (map (\<lambda>v. snd (snd v)) vs)))"

definition short_incoming :: "(string \<Rightarrow> bool) \<Rightarrow> flow list \<Rightarrow> string \<Rightarrow> int" where
  "short_incoming pat w h =
     (case map_of (small_window_aggregated pat w) h of None \<Rightarrow> 0 | Some s \<Rightarrow> fst s)"

definition short_outgoing :: "(string \<Rightarrow> bool) \<Rightarrow> flow list \<Rightarrow> string \<Rightarrow> int" where
  "short_outgoing pat w h =
     (case map_of (small_window_aggregated pat w) h of None \<Rightarrow> 0 | Some s \<Rightarrow> fst (snd s))"

definition horizon :: "flow list list \<Rightarrow> flow list list" where
  "horizon hist = take (long_window_length div base_window_length) hist"

text \<open>
  The entry \<open>print_and_send\<close> builds for an item whose divisions succeed, the condition
  of the second filter of \<open>inspect_ddos\<close>, and the condition of its first filter.
\<close>

definition ratio :: "'f float_ops \<Rightarrow> int \<Rightarrow> int \<Rightarrow> 'f" where
  "ratio ops a b = fdiv ops (to_float ops a) (to_float ops b)"

definition alert_of :: "'f float_ops \<Rightarrow> string \<times> short_stats \<times> long_stats \<Rightarrow> 'f alert" where
  "alert_of ops item =
     \<lparr>dst_ip = fst item,
      shortratio = ratio ops (fst (fst (snd item))) (fst (snd (fst (snd item)))),
      longratio = ratio ops (item0 (snd (snd item))) (item1 (snd (snd item))),
      attackers = snd (snd (fst (snd item)))\<rparr>"

definition rule_holds :: "'f float_ops \<Rightarrow> short_stats \<Rightarrow> long_stats \<Rightarrow> bool" where
  "rule_holds ops s l \<longleftrightarrow>
     fst s > minimal_incoming \<and>
     fgt ops (ratio ops (fst s) (fst (snd s)))
       (fmul ops (ratio ops (item0 l) (item1 l)) (to_float ops threshold))"

definition nonzero :: "string \<times> short_stats \<times> long_stats \<Rightarrow> bool" where
  "nonzero item \<longleftrightarrow> fst (snd (fst (snd item))) \<noteq> 0 \<and> item1 (snd (snd item)) \<noteq> 0"

text \<open>
  Inputs for the worked examples. The network filter is the regular expression
  \<^verbatim>\<open>10\.10\.\<close>, which \<open>re.match\<close> anchors at the start of the address only. The numbers
  are small enough for every float operation on them to be exact, so \<open>exact_ops\<close> gives
  Python's results there.
\<close>

definition example_filter :: "string \<Rightarrow> bool" where
  "example_filter a \<longleftrightarrow> take 6 a = ''10.10.''"

definition flow_of :: "string \<Rightarrow> string \<Rightarrow> int \<Rightarrow> flow" where
  "flow_of s d n = \<lparr>sourceIPv4Address = s, destinationIPv4Address = d, packetDeltaCount = n\<rparr>"

definition attack_window :: "flow list" where
  "attack_window =
     [flow_of ''8.8.8.8'' ''10.10.0.1'' 100000,
      flow_of ''9.9.9.9'' ''10.10.0.1'' 50000,
      flow_of ''10.10.0.1'' ''8.8.8.8'' 100]"

definition quiet_window :: "flow list" where
  "quiet_window =
     [flow_of ''8.8.8.8'' ''10.10.0.1'' 6850000,
      flow_of ''10.10.0.1'' ''8.8.8.8'' 999900]"

definition flood_window :: "flow list" where
  "flood_window = [flow_of ''8.8.8.8'' ''10.10.0.1'' 500000]"

text \<open>The set of source addresses an aggregation holds for a host, empty without an entry.\<close>

definition sources_in :: "(string \<times> short_stats) list \<Rightarrow> string \<Rightarrow> string set" where
  "sources_in d h = (case map_of d h of None \<Rightarrow> {} | Some s \<Rightarrow> snd (snd s))"

section \<open>Lemmas about the operations\<close>

lemma vals_simps [simp]:
  "vals k [] = []"
  "vals k ((k', v) # xs) = (if k' = k then v # vals k xs else vals k xs)"
  "vals k (xs @ ys) = vals k xs @ vals k ys"
  by (simp_all add: vals_def)

lemma mem_keys: "k \<in> fst ` set xs \<longleftrightarrow> map_of xs k \<noteq> None"
  by (simp add: map_of_eq_None_iff)

lemma map_of_None_vals: "map_of xs k = None \<longleftrightarrow> vals k xs = []"
  by (induction xs) (auto split: if_splits)

lemma vals_empty_iff: "vals k xs = [] \<longleftrightarrow> k \<notin> fst ` set xs"
  by (simp add: mem_keys map_of_None_vals)

lemma map_of_merge_value:
  "map_of (merge_value f k v d) k' =
     (if k' = k then Some (case map_of d k of None \<Rightarrow> v | Some a \<Rightarrow> f a v) else map_of d k')"
  by (induction d) auto

lemma keys_merge_value: "fst ` set (merge_value f k v d) = insert k (fst ` set d)"
  by (rule set_eqI) (simp only: mem_keys insert_iff map_of_merge_value, simp)

lemma distinct_merge_value:
  "distinct (map fst d) \<Longrightarrow> distinct (map fst (merge_value f k v d))"
proof (induction d)
  case Nil
  show ?case by simp
next
  case (Cons p d)
  obtain k' a where p: "p = (k', a)" by (cases p)
  from Cons.prems have "k' \<notin> fst ` set d" and "distinct (map fst d)" by (simp_all add: p)
  with Cons.IH show ?case by (auto simp add: p keys_merge_value)
qed

lemma sum_merge_value:
  assumes "\<And>a b. g (f a b) = g a + (g b :: int)"
  shows "sum_list (map (\<lambda>p. g (snd p)) (merge_value f k v d)) = sum_list (map (\<lambda>p. g (snd p)) d) + g v"
  using assms by (induction d) auto

lemma map_of_foldl_merge:
  "map_of (foldl (\<lambda>d (k, v). merge_value f k v d) d xs) k =
     (case map_of d k of
        None \<Rightarrow> (case vals k xs of [] \<Rightarrow> None | v # vs \<Rightarrow> Some (foldl f v vs))
      | Some a \<Rightarrow> Some (foldl f a (vals k xs)))"
proof (induction xs arbitrary: d)
  case Nil
  show ?case by (simp split: option.splits)
next
  case (Cons x xs)
  obtain k' v' where x: "x = (k', v')" by (cases x)
  show ?case
    by (simp add: x Cons.IH map_of_merge_value split: option.splits list.splits)
qed

lemma distinct_foldl_merge:
  "distinct (map fst d) \<Longrightarrow> distinct (map fst (foldl (\<lambda>d (k, v). merge_value f k v d) d xs))"
  by (induction xs arbitrary: d) (auto simp: distinct_merge_value)

lemma keys_foldl_merge:
  "fst ` set (foldl (\<lambda>d (k, v). merge_value f k v d) d xs) = fst ` set d \<union> fst ` set xs"
proof (induction xs arbitrary: d)
  case Nil
  show ?case by simp
next
  case (Cons x xs)
  obtain k' v' where x: "x = (k', v')" by (cases x)
  show ?case by (simp add: x Cons.IH keys_merge_value)
qed

lemma sum_foldl_merge:
  assumes "\<And>a b. g (f a b) = g a + (g b :: int)"
  shows "sum_list (map (\<lambda>p. g (snd p)) (foldl (\<lambda>d (k, v). merge_value f k v d) d xs)) =
     sum_list (map (\<lambda>p. g (snd p)) d) + sum_list (map (\<lambda>p. g (snd p)) xs)"
  by (induction xs arbitrary: d) (auto simp: sum_merge_value [where g = g, OF assms])

lemma map_of_reduceByKey:
  "map_of (reduceByKey f xs) k =
     (case vals k xs of [] \<Rightarrow> None | v # vs \<Rightarrow> Some (foldl f v vs))"
  by (simp add: reduceByKey_def map_of_foldl_merge)

lemma distinct_reduceByKey: "distinct (map fst (reduceByKey f xs))"
  by (simp add: reduceByKey_def distinct_foldl_merge)

lemma keys_reduceByKey: "fst ` set (reduceByKey f xs) = fst ` set xs"
  by (simp add: reduceByKey_def keys_foldl_merge)

lemma sum_reduceByKey:
  assumes "\<And>a b. g (f a b) = g a + (g b :: int)"
  shows "sum_list (map (\<lambda>p. g (snd p)) (reduceByKey f xs)) = sum_list (map (\<lambda>p. g (snd p)) xs)"
  by (simp add: reduceByKey_def sum_foldl_merge [where g = g, OF assms])

lemma vals_incoming:
  "vals h (incoming_small_flows_stats pat w) =
     map (\<lambda>j. (packetDeltaCount j, 0, {sourceIPv4Address j})) (inbound_events pat w h)"
  by (induction w) (auto simp add: incoming_small_flows_stats_def inbound_events_def)

lemma vals_outgoing:
  "vals h (outgoing_small_flows_stats pat w) =
     map (\<lambda>j. (0, packetDeltaCount j, {})) (outbound_events pat w h)"
  by (induction w) (auto simp add: outgoing_small_flows_stats_def outbound_events_def)

lemma foldl_short_merge:
  "foldl short_merge v vs = short_merge v (total3 vs)"
proof (induction vs arbitrary: v)
  case Nil
  show ?case by (simp add: total3_def short_merge_def)
next
  case (Cons u us)
  show ?case
    by (simp add: Cons.IH) (auto simp add: total3_def short_merge_def)
qed

lemma reduce_short_total3:
  "(case vs of [] \<Rightarrow> None | v # vs' \<Rightarrow> Some (foldl short_merge v vs')) =
     (if vs = [] then None else Some (total3 vs))"
  by (cases vs) (auto simp add: foldl_short_merge short_merge_def total3_def)

lemma total3_events:
  "total3 (map (\<lambda>j. (packetDeltaCount j, 0, {sourceIPv4Address j})) ins @
           map (\<lambda>j. (0, packetDeltaCount j, {})) outs) =
     (sum_list (map packetDeltaCount ins), sum_list (map packetDeltaCount outs),
      sourceIPv4Address ` set ins)"
  by (auto simp add: total3_def comp_def)

lemma map_of_small_window_aggregated:
  "map_of (small_window_aggregated pat w) h =
     (if inbound_events pat w h = [] \<and> outbound_events pat w h = [] then None
      else Some (sum_list (map packetDeltaCount (inbound_events pat w h)),
                 sum_list (map packetDeltaCount (outbound_events pat w h)),
                 sourceIPv4Address ` set (inbound_events pat w h)))"
  unfolding small_window_aggregated_def union_rdd_def map_of_reduceByKey
    vals_simps vals_incoming vals_outgoing reduce_short_total3 total3_events
  by simp

lemma distinct_small_window_aggregated:
  "distinct (map fst (small_window_aggregated pat w))"
  by (simp add: small_window_aggregated_def distinct_reduceByKey)

lemma sum_small_window_aggregated:
  "sum_list (map (\<lambda>p. fst (snd p)) (small_window_aggregated pat w)) =
     sum_list (map packetDeltaCount (filter (\<lambda>j. pat (destinationIPv4Address j)) w))"
proof -
  have "sum_list (map (\<lambda>p. fst (snd p)) (small_window_aggregated pat w)) =
      sum_list (map (\<lambda>p. fst (snd p)) (incoming_small_flows_stats pat w @
        outgoing_small_flows_stats pat w))"
    unfolding small_window_aggregated_def union_rdd_def
    by (rule sum_reduceByKey) (simp add: short_merge_def)
  also have "\<dots> = sum_list (map packetDeltaCount (filter (\<lambda>j. pat (destinationIPv4Address j)) w))"
    by (simp add: incoming_small_flows_stats_def outgoing_small_flows_stats_def comp_def)
  finally show ?thesis .
qed

lemma vals_concat: "vals h (concat xss) = concat (map (vals h) xss)"
  by (induction xss) simp_all

lemma vals_distinct:
  "distinct (map fst xs) \<Longrightarrow> vals h xs = (case map_of xs h of None \<Rightarrow> [] | Some v \<Rightarrow> [v])"
proof (induction xs)
  case Nil
  show ?case by simp
next
  case (Cons p xs)
  obtain k a where p: "p = (k, a)" by (cases p)
  from Cons.prems have nk: "k \<notin> fst ` set xs" and d: "distinct (map fst xs)"
    by (simp_all add: p)
  from nk have "map_of xs k = None" by (simp add: mem_keys)
  with Cons.IH [OF d] show ?case by (auto simp add: p)
qed

lemma vals_map_as_long:
  "vals h (map as_long xs) = map (\<lambda>(a, b, s). Tuple3 a b s) (vals h xs)"
  by (induction xs) (auto simp add: as_long_def)

lemma foldl_long_merge_items:
  "item0 (foldl long_merge v vs) = item0 v + sum_list (map item0 vs) \<and>
   item1 (foldl long_merge v vs) = item1 v + sum_list (map item1 vs)"
  by (induction vs arbitrary: v) (simp_all add: long_merge_def)

lemma vals_long_per_window:
  "vals h (map as_long (small_window_aggregated pat w)) =
     (case map_of (small_window_aggregated pat w) h of None \<Rightarrow> []
      | Some (a, b, s) \<Rightarrow> [Tuple3 a b s])"
  by (simp add: vals_map_as_long vals_distinct [OF distinct_small_window_aggregated]
      split: option.splits)

lemma vals_union_long_flows:
  "vals h (union_long_flows pat hist) =
     concat (map (\<lambda>w. case map_of (small_window_aggregated pat w) h of None \<Rightarrow> []
       | Some (a, b, s) \<Rightarrow> [Tuple3 a b s]) (rev (horizon hist)))"
  by (simp add: union_long_flows_def window_def horizon_def vals_concat take_map rev_map
      comp_def vals_long_per_window)

lemma sum_concat_windows:
  "sum_list (map item0 (concat (map (\<lambda>w. case map_of (small_window_aggregated pat w) h of
       None \<Rightarrow> [] | Some (a, b, s) \<Rightarrow> [Tuple3 a b s]) ws))) =
     sum_list (map (\<lambda>w. short_incoming pat w h) ws)"
  by (induction ws) (auto simp add: short_incoming_def split: option.splits)

lemma vals_union_empty_iff:
  "vals h (union_long_flows pat hist) = [] \<longleftrightarrow>
     (\<forall>w \<in> set (horizon hist). map_of (small_window_aggregated pat w) h = None)"
proof -
  have "(case m of None \<Rightarrow> [] | Some (a, b, s) \<Rightarrow> [Tuple3 a b s]) = [] \<longleftrightarrow> m = None"
    for m :: "short_stats option"
    by (cases m) auto
  then show ?thesis by (simp add: vals_union_long_flows)
qed

lemma sum_item0_union:
  "sum_list (map item0 (vals h (union_long_flows pat hist))) =
     sum_list (map (\<lambda>w. short_incoming pat w h) (horizon hist))"
proof -
  have "sum_list (map item0 (vals h (union_long_flows pat hist))) =
      sum_list (map (\<lambda>w. short_incoming pat w h) (rev (horizon hist)))"
    unfolding vals_union_long_flows
    by (rule sum_concat_windows)
  then show ?thesis by (simp add: rev_map [symmetric])
qed

lemma set_join:
  "(k, (v, w)) \<in> set (join xs ys) \<longleftrightarrow> (k, v) \<in> set xs \<and> (k, w) \<in> set ys"
  by (force simp add: join_def)

lemma keys_join: "fst ` set (join xs ys) = fst ` set xs \<inter> fst ` set ys"
  by (force simp add: join_def)

lemma filter_key_distinct:
  "distinct (map fst ys) \<Longrightarrow>
     filter (\<lambda>(k', w). k' = k) ys = (case map_of ys k of None \<Rightarrow> [] | Some w \<Rightarrow> [(k, w)])"
proof (induction ys)
  case Nil
  show ?case by simp
next
  case (Cons p ys)
  obtain k' a where p: "p = (k', a)" by (cases p)
  from Cons.prems have "map_of ys k' = None" and d: "distinct (map fst ys)"
    by (simp_all add: p mem_keys)
  with Cons.IH [OF d] show ?case by (auto simp add: p)
qed

lemma distinct_join_aux:
  "distinct (map fst xs) \<Longrightarrow>
     distinct (map fst (concat (map (\<lambda>(k, v). case m k of None \<Rightarrow> []
        | Some w \<Rightarrow> [(k, (v, w))]) xs))) \<and>
     fst ` set (concat (map (\<lambda>(k, v). case m k of None \<Rightarrow> []
        | Some w \<Rightarrow> [(k, (v, w))]) xs)) \<subseteq> fst ` set xs"
  by (induction xs) (force split: option.splits)+

lemma distinct_join:
  assumes "distinct (map fst xs)" and "distinct (map fst ys)"
  shows "distinct (map fst (join xs ys))"
proof -
  have "join xs ys = concat (map (\<lambda>(k, v). case map_of ys k of None \<Rightarrow> []
        | Some w \<Rightarrow> [(k, (v, w))]) xs)"
    unfolding join_def
    by (rule arg_cong [where f = concat], rule map_cong)
      (auto simp add: filter_key_distinct [OF assms(2)] split: option.splits)
  with distinct_join_aux [OF assms(1), of "map_of ys"] show ?thesis by (simp only:)
qed

lemma filter_rdd_total:
  "(\<And>x. x \<in> set xs \<Longrightarrow> p x = Inr (q x)) \<Longrightarrow> filter_rdd p xs = Inr (filter q xs)"
  by (induction xs) simp_all

lemma suspicious_nonzero:
  "nonzero item \<Longrightarrow> suspicious ops item = Inr (rule_holds ops (fst (snd item)) (snd (snd item)))"
  by (simp add: suspicious_def nonzero_def rule_holds_def py_fdiv_def ratio_def Let_def)

lemma new_entry_nonzero:
  "nonzero item \<Longrightarrow> new_entry ops item = Inr (alert_of ops item)"
  by (simp add: new_entry_def nonzero_def alert_of_def py_fdiv_def ratio_def Let_def)

lemma results_of_nonzero:
  "(\<And>x. x \<in> set xs \<Longrightarrow> nonzero x) \<Longrightarrow> results_of ops xs = Inr (map (alert_of ops) xs)"
  by (induction xs) (simp_all add: new_entry_nonzero)

lemma update_fresh: "k \<notin> fst ` set d \<Longrightarrow> AList.update k v d = d @ [(k, v)]"
  by (induction d) auto

lemma collect_distinct:
  "distinct (map fst xs) \<Longrightarrow> fst ` set d \<inter> fst ` set xs = {} \<Longrightarrow>
     foldl (\<lambda>d (k, v). AList.update k v d) d xs = d @ xs"
proof (induction xs arbitrary: d)
  case Nil
  show ?case by simp
next
  case (Cons p xs)
  obtain k a where p: "p = (k, a)" by (cases p)
  from Cons.prems have fresh: "k \<notin> fst ` set d" and d: "distinct (map fst xs)"
    and nk: "k \<notin> fst ` set xs" and disj: "fst ` set d \<inter> fst ` set xs = {}"
    by (auto simp add: p)
  from nk disj have "fst ` set (d @ [(k, a)]) \<inter> fst ` set xs = {}" by auto
  from Cons.IH [OF d this] show ?case by (simp add: p update_fresh [OF fresh])
qed

lemma collectAsMap_distinct: "distinct (map fst xs) \<Longrightarrow> collectAsMap xs = xs"
  using collect_distinct [of xs "[]"] by (simp add: collectAsMap_def)

lemma nonzero_union_eq:
  "nonzero_union pat cur past = filter nonzero (windows_union pat cur past)"
  by (simp add: nonzero_union_def nonzero_def [abs_def])

lemma distinct_windows_union: "distinct (map fst (windows_union pat cur past))"
  by (simp add: windows_union_def distinct_join distinct_small_window_aggregated
      long_window_aggregated_def distinct_reduceByKey)

lemma inspect_ddos_eq:
  "inspect_ddos ops pat cur past =
     Inr (filter (\<lambda>x. rule_holds ops (fst (snd x)) (snd (snd x))) (nonzero_union pat cur past))"
  unfolding inspect_ddos_def
  by (rule filter_rdd_total) (simp add: nonzero_union_eq suspicious_nonzero)

lemma ddos_result_eq:
  "ddos_result ops pat cur past =
     Inr (map (alert_of ops)
       (filter (\<lambda>x. rule_holds ops (fst (snd x)) (snd (snd x))) (nonzero_union pat cur past)))"
proof -
  let ?ys = "filter (\<lambda>x. rule_holds ops (fst (snd x)) (snd (snd x))) (nonzero_union pat cur past)"
  have "distinct (map fst ?ys)"
    by (simp add: nonzero_union_eq distinct_map_filter distinct_windows_union)
  then have "collectAsMap ?ys = ?ys" by (rule collectAsMap_distinct)
  moreover have "results_of ops ?ys = Inr (map (alert_of ops) ?ys)"
    by (rule results_of_nonzero) (simp add: nonzero_union_eq)
  ultimately show ?thesis
    by (simp add: ddos_result_def inspect_ddos_eq print_and_send_def)
qed

lemma map_of_mem: "distinct (map fst xs) \<Longrightarrow> (k, v) \<in> set xs \<longleftrightarrow> map_of xs k = Some v"
  by simp

lemma mem_windows_union:
  "(h, (s, l)) \<in> set (windows_union pat cur past) \<longleftrightarrow>
     map_of (small_window_aggregated pat cur) h = Some s \<and>
     map_of (long_window_aggregated pat (cur # past)) h = Some l"
  by (simp add: windows_union_def set_join distinct_small_window_aggregated
      long_window_aggregated_def distinct_reduceByKey)

lemma alert_for_host:
  "(\<exists>a \<in> set (map (alert_of ops)
       (filter (\<lambda>x. rule_holds ops (fst (snd x)) (snd (snd x))) (nonzero_union pat cur past))).
       dst_ip a = h \<and> P a) \<longleftrightarrow>
   (\<exists>s l. map_of (small_window_aggregated pat cur) h = Some s \<and>
      map_of (long_window_aggregated pat (cur # past)) h = Some l \<and>
      fst (snd s) \<noteq> 0 \<and> item1 l \<noteq> 0 \<and> rule_holds ops s l \<and> P (alert_of ops (h, (s, l))))"
  (is "?L \<longleftrightarrow> ?R")
proof
  assume ?L
  then obtain x where x: "x \<in> set (windows_union pat cur past)" "nonzero x"
    "rule_holds ops (fst (snd x)) (snd (snd x))" "dst_ip (alert_of ops x) = h" "P (alert_of ops x)"
    by (auto simp add: nonzero_union_eq)
  obtain k s l where xe: "x = (k, (s, l))" by (cases x) auto
  from x(4) have "k = h" by (simp add: xe alert_of_def)
  with x show ?R by (auto simp add: xe mem_windows_union nonzero_def)
next
  assume ?R
  then obtain s l where sl: "map_of (small_window_aggregated pat cur) h = Some s"
    "map_of (long_window_aggregated pat (cur # past)) h = Some l"
    "fst (snd s) \<noteq> 0" "item1 l \<noteq> 0" "rule_holds ops s l" "P (alert_of ops (h, (s, l)))"
    by blast
  then have "(h, (s, l)) \<in> set (filter (\<lambda>x. rule_holds ops (fst (snd x)) (snd (snd x)))
      (nonzero_union pat cur past))"
    by (simp add: nonzero_union_eq mem_windows_union nonzero_def)
  moreover have "dst_ip (alert_of ops (h, (s, l))) = h" by (simp add: alert_of_def)
  ultimately show ?L using sl(6) by (metis (no_types, lifting) image_eqI set_map)
qed

lemmas eval_defs = example_filter_def flow_of_def attack_window_def quiet_window_def
  small_window_aggregated_def reduceByKey_def union_rdd_def incoming_small_flows_stats_def
  outgoing_small_flows_stats_def short_merge_def long_window_aggregated_def
  union_long_flows_def window_def long_window_length_def base_window_length_def
  as_long_def long_merge_def

lemma ex_short: "small_window_aggregated example_filter attack_window =
  [(''10.10.0.1'', (150000, 100, {''8.8.8.8'', ''9.9.9.9''}))]"
  by (simp add: eval_defs)

lemma ex_long: "long_window_aggregated example_filter [attack_window, quiet_window] =
  [(''10.10.0.1'', Tuple2 7000000 1000000)]"
  by (simp add: eval_defs)

lemma ex_result: "ddos_result exact_ops example_filter attack_window [quiet_window] =
  Inr [\<lparr>dst_ip = ''10.10.0.1'', shortratio = 1500, longratio = 7,
     attackers = {''8.8.8.8'', ''9.9.9.9''}\<rparr>]"
  by (simp add: ddos_result_def inspect_ddos_def nonzero_union_def windows_union_def
      ex_short ex_long join_def suspicious_def py_fdiv_def exact_ops_def minimal_incoming_def
      threshold_def print_and_send_def collectAsMap_def new_entry_def)

lemma ex_flood_short: "small_window_aggregated example_filter flood_window =
  [(''10.10.0.1'', (500000, 0, {''8.8.8.8''}))]"
  by (simp add: eval_defs flood_window_def)

lemma ex_flood_long: "long_window_aggregated example_filter [flood_window] =
  [(''10.10.0.1'', Tuple3 500000 0 {''8.8.8.8''})]"
  by (simp add: eval_defs flood_window_def)

lemma short_host_in_long:
  assumes "map_of (small_window_aggregated pat cur) h \<noteq> None"
  shows "map_of (long_window_aggregated pat (cur # past)) h \<noteq> None"
proof -
  have "cur \<in> set (horizon (cur # past))"
    by (simp add: horizon_def long_window_length_def base_window_length_def)
  with assms have "vals h (union_long_flows pat (cur # past)) \<noteq> []"
    by (auto simp add: vals_union_empty_iff)
  then show ?thesis
    by (simp add: long_window_aggregated_def map_of_reduceByKey split: list.splits)
qed

lemma sum_concat_windows_out:
  "sum_list (map item1 (concat (map (\<lambda>w. case map_of (small_window_aggregated pat w) h of
       None \<Rightarrow> [] | Some (a, b, s) \<Rightarrow> [Tuple3 a b s]) ws))) =
     sum_list (map (\<lambda>w. short_outgoing pat w h) ws)"
  by (induction ws) (auto simp add: short_outgoing_def split: option.splits)

lemma sum_item1_union:
  "sum_list (map item1 (vals h (union_long_flows pat hist))) =
     sum_list (map (\<lambda>w. short_outgoing pat w h) (horizon hist))"
proof -
  have "sum_list (map item1 (vals h (union_long_flows pat hist))) =
      sum_list (map (\<lambda>w. short_outgoing pat w h) (rev (horizon hist)))"
    unfolding vals_union_long_flows
    by (rule sum_concat_windows_out)
  then show ?thesis by (simp add: rev_map [symmetric])
qed

lemma horizon_240: "horizon hist = take 240 hist"
  by (simp add: horizon_def long_window_length_def base_window_length_def)

lemma no_short_tally_iff:
  "map_of (small_window_aggregated pat w) h = None \<longleftrightarrow>
     inbound_events pat w h = [] \<and> outbound_events pat w h = []"
  by (simp add: map_of_small_window_aggregated)

lemma alert_origin:
  assumes "a \<in> set (map (alert_of ops)
     (filter (\<lambda>x. rule_holds ops (fst (snd x)) (snd (snd x))) (nonzero_union pat cur past)))"
  shows "\<exists>s l. map_of (small_window_aggregated pat cur) (dst_ip a) = Some s \<and>
     map_of (long_window_aggregated pat (cur # past)) (dst_ip a) = Some l \<and>
     fst (snd s) \<noteq> 0 \<and> item1 l \<noteq> 0 \<and> rule_holds ops s l \<and>
     a = alert_of ops (dst_ip a, (s, l))"
proof -
  from assms have "\<exists>b \<in> set (map (alert_of ops)
     (filter (\<lambda>x. rule_holds ops (fst (snd x)) (snd (snd x))) (nonzero_union pat cur past))).
       dst_ip b = dst_ip a \<and> a = b"
    by blast
  then show ?thesis unfolding alert_for_host .
qed

lemma sources_in_small_window:
  "sources_in (small_window_aggregated pat w) h = sourceIPv4Address ` set (inbound_events pat w h)"
  by (simp add: sources_in_def map_of_small_window_aggregated)

lemma ex_evicted:
  "long_window_aggregated example_filter (replicate 240 [] @ [attack_window]) = []"
  by (simp add: long_window_aggregated_def union_long_flows_def window_def
      long_window_length_def base_window_length_def small_window_aggregated_def
      reduceByKey_def union_rdd_def incoming_small_flows_stats_def
      outgoing_small_flows_stats_def take_map)

section \<open>The detection rule\<close>

text \<open>
  C1. For a host that is in the aggregated short window and in the aggregated long window,
  with both outgoing counts nonzero, the tick runs without an exception and emits an alert
  for the host exactly when the short incoming count is above 100000 and the short ratio is
  greater than the long ratio times 50, the ratios and the comparison being those of
  Python's floats.
\<close>

theorem detection_rule_iff:
  assumes "map_of (small_window_aggregated pat cur) h = Some (si, so, ss)"
    and "map_of (long_window_aggregated pat (cur # past)) h = Some l"
    and "so \<noteq> 0" and "item1 l \<noteq> 0"
  shows "\<exists>alerts. ddos_result ops pat cur past = Inr alerts \<and>
     ((\<exists>a \<in> set alerts. dst_ip a = h) \<longleftrightarrow>
        si > 100000 \<and>
        fgt ops (fdiv ops (to_float ops si) (to_float ops so))
          (fmul ops (fdiv ops (to_float ops (item0 l)) (to_float ops (item1 l)))
             (to_float ops 50)))"
proof -
  let ?alerts = "map (alert_of ops)
     (filter (\<lambda>x. rule_holds ops (fst (snd x)) (snd (snd x))) (nonzero_union pat cur past))"
  have "(\<exists>a \<in> set ?alerts. dst_ip a = h \<and> True) \<longleftrightarrow> rule_holds ops (si, so, ss) l"
    unfolding alert_for_host using assms by simp
  then have "(\<exists>a \<in> set ?alerts. dst_ip a = h) \<longleftrightarrow>
        si > 100000 \<and>
        fgt ops (fdiv ops (to_float ops si) (to_float ops so))
          (fmul ops (fdiv ops (to_float ops (item0 l)) (to_float ops (item1 l)))
             (to_float ops 50))"
    by (simp add: rule_holds_def ratio_def minimal_incoming_def threshold_def)
  then show ?thesis by (simp only: ddos_result_eq) blast
qed

theorem detection_rule_iff_witness:
  "map_of (small_window_aggregated example_filter attack_window) ''10.10.0.1'' =
     Some (150000, 100, {''8.8.8.8'', ''9.9.9.9''}) \<and>
   map_of (long_window_aggregated example_filter (attack_window # [quiet_window])) ''10.10.0.1'' =
     Some (Tuple2 7000000 1000000) \<and>
   (100::int) \<noteq> 0 \<and> item1 (Tuple2 7000000 1000000) \<noteq> 0 \<and>
   (\<exists>alerts. ddos_result exact_ops example_filter attack_window [quiet_window] = Inr alerts \<and>
      (\<exists>a \<in> set alerts. dst_ip a = ''10.10.0.1'') \<and>
      (150000::int) > 100000 \<and> (150000 / 100 :: real) > 7000000 / 1000000 * 50)"
proof -
  have h1: "map_of (small_window_aggregated example_filter attack_window) ''10.10.0.1'' =
     Some (150000, 100, {''8.8.8.8'', ''9.9.9.9''})"
    by (simp add: ex_short)
  have h2: "map_of (long_window_aggregated example_filter (attack_window # [quiet_window]))
     ''10.10.0.1'' = Some (Tuple2 7000000 1000000)"
    by (simp add: ex_long)
  have h3: "(100::int) \<noteq> 0" by simp
  have h4: "item1 (Tuple2 7000000 1000000) \<noteq> 0" by simp
  from detection_rule_iff [OF h1 h2 h3 h4, of exact_ops] h1 h2
  show ?thesis by (simp add: exact_ops_def)
qed

text \<open>
  C2. A tick never raises: neither the filter of \<open>inspect_ddos\<close> nor the divisions of
  \<open>print_and_send\<close> divide by zero. A host whose short or long outgoing count is zero
  gets no alert.
\<close>

theorem zero_outgoing_no_alert:
  "\<exists>rdd alerts. inspect_ddos ops pat cur past = Inr rdd \<and>
     ddos_result ops pat cur past = Inr alerts \<and>
     (\<forall>s l. map_of (small_window_aggregated pat cur) h = Some s \<and>
        map_of (long_window_aggregated pat (cur # past)) h = Some l \<and>
        (fst (snd s) = 0 \<or> item1 l = 0) \<longrightarrow> (\<forall>a \<in> set alerts. dst_ip a \<noteq> h))"
proof -
  let ?alerts = "map (alert_of ops)
     (filter (\<lambda>x. rule_holds ops (fst (snd x)) (snd (snd x))) (nonzero_union pat cur past))"
  have "\<forall>a \<in> set ?alerts. dst_ip a \<noteq> h"
    if "map_of (small_window_aggregated pat cur) h = Some s"
      and "map_of (long_window_aggregated pat (cur # past)) h = Some l"
      and "fst (snd s) = 0 \<or> item1 l = 0" for s l
  proof -
    have "\<not> (\<exists>a \<in> set ?alerts. dst_ip a = h \<and> True)"
      unfolding alert_for_host using that by auto
    then show ?thesis by blast
  qed
  then show ?thesis by (simp only: ddos_result_eq inspect_ddos_eq) blast
qed

theorem zero_outgoing_no_alert_witness:
  "map_of (small_window_aggregated example_filter flood_window) ''10.10.0.1'' =
     Some (500000, 0, {''8.8.8.8''}) \<and>
   map_of (long_window_aggregated example_filter (flood_window # [])) ''10.10.0.1'' =
     Some (Tuple3 500000 0 {''8.8.8.8''}) \<and>
   (\<exists>rdd alerts. inspect_ddos exact_ops example_filter flood_window [] = Inr rdd \<and>
      ddos_result exact_ops example_filter flood_window [] = Inr alerts \<and>
      (\<forall>a \<in> set alerts. dst_ip a \<noteq> ''10.10.0.1''))"
proof -
  have h1: "map_of (small_window_aggregated example_filter flood_window) ''10.10.0.1'' =
     Some (500000, 0, {''8.8.8.8''})"
    by (simp add: ex_flood_short)
  have h2: "map_of (long_window_aggregated example_filter (flood_window # [])) ''10.10.0.1'' =
     Some (Tuple3 500000 0 {''8.8.8.8''})"
    by (simp add: ex_flood_long)
  from zero_outgoing_no_alert [of exact_ops example_filter flood_window "[]" "''10.10.0.1''"]
    h1 h2
  show ?thesis by simp
qed

text \<open>
  C3. The two windows are joined on the host: the hosts of the join are those present in
  both mappings, and a host missing from the short or from the long mapping gets no alert.
\<close>

theorem inner_join_exclusion:
  assumes "map_of (small_window_aggregated pat cur) h = None \<or>
    map_of (long_window_aggregated pat (cur # past)) h = None"
  shows "fst ` set (windows_union pat cur past) =
      fst ` set (small_window_aggregated pat cur) \<inter>
      fst ` set (long_window_aggregated pat (cur # past)) \<and>
    h \<notin> fst ` set (windows_union pat cur past) \<and>
    (\<exists>alerts. ddos_result ops pat cur past = Inr alerts \<and> (\<forall>a \<in> set alerts. dst_ip a \<noteq> h))"
proof -
  let ?alerts = "map (alert_of ops)
     (filter (\<lambda>x. rule_holds ops (fst (snd x)) (snd (snd x))) (nonzero_union pat cur past))"
  have "\<not> (\<exists>a \<in> set ?alerts. dst_ip a = h \<and> True)"
    unfolding alert_for_host using assms by auto
  then have "\<forall>a \<in> set ?alerts. dst_ip a \<noteq> h" by blast
  moreover have "h \<notin> fst ` set (windows_union pat cur past)"
    using assms by (auto simp add: windows_union_def keys_join mem_keys)
  ultimately show ?thesis
    by (simp only: ddos_result_eq windows_union_def keys_join) blast
qed

theorem inner_join_exclusion_witness:
  "(map_of (small_window_aggregated example_filter []) ''10.10.0.1'' = None \<or>
    map_of (long_window_aggregated example_filter ([] # [attack_window])) ''10.10.0.1'' = None) \<and>
   map_of (long_window_aggregated example_filter ([] # [attack_window])) ''10.10.0.1'' \<noteq> None \<and>
   ''10.10.0.1'' \<notin> fst ` set (windows_union example_filter [] [attack_window]) \<and>
   (\<exists>alerts. ddos_result exact_ops example_filter [] [attack_window] = Inr alerts \<and>
      (\<forall>a \<in> set alerts. dst_ip a \<noteq> ''10.10.0.1''))"
proof -
  have h: "map_of (small_window_aggregated example_filter []) ''10.10.0.1'' = None \<or>
    map_of (long_window_aggregated example_filter ([] # [attack_window])) ''10.10.0.1'' = None"
    by (simp add: eval_defs)
  have p: "map_of (long_window_aggregated example_filter ([] # [attack_window])) ''10.10.0.1''
      \<noteq> None"
    by (simp add: eval_defs)
  from inner_join_exclusion [OF h, of exact_ops] h p show ?thesis by blast
qed

section \<open>Classification of flow records\<close>

text \<open>
  C4. One flow record gives an incoming element (destination, (packets, 0, {source}))
  exactly when its destination matches the filter, and an outgoing element
  (source, (0, packets, {})) exactly when its source matches; the two tests are independent,
  and a list of records is classified record by record.
\<close>

theorem classifier_events:
  "incoming_small_flows_stats pat [j] =
     (if pat (destinationIPv4Address j)
      then [(destinationIPv4Address j, (packetDeltaCount j, 0, {sourceIPv4Address j}))]
      else []) \<and>
   outgoing_small_flows_stats pat [j] =
     (if pat (sourceIPv4Address j)
      then [(sourceIPv4Address j, (0, packetDeltaCount j, {}))]
      else []) \<and>
   incoming_small_flows_stats pat (j # w) =
     incoming_small_flows_stats pat [j] @ incoming_small_flows_stats pat w \<and>
   outgoing_small_flows_stats pat (j # w) =
     outgoing_small_flows_stats pat [j] @ outgoing_small_flows_stats pat w"
  by (simp add: incoming_small_flows_stats_def outgoing_small_flows_stats_def)

theorem classifier_events_witness:
  "incoming_small_flows_stats example_filter [flow_of ''8.8.8.8'' ''10.10.0.1'' 7] =
     [(''10.10.0.1'', (7, 0, {''8.8.8.8''}))] \<and>
   outgoing_small_flows_stats example_filter [flow_of ''8.8.8.8'' ''10.10.0.1'' 7] = [] \<and>
   incoming_small_flows_stats example_filter [flow_of ''10.10.0.2'' ''10.10.0.1'' 7] =
     [(''10.10.0.1'', (7, 0, {''10.10.0.2''}))] \<and>
   outgoing_small_flows_stats example_filter [flow_of ''10.10.0.2'' ''10.10.0.1'' 7] =
     [(''10.10.0.2'', (0, 7, {}))] \<and>
   incoming_small_flows_stats example_filter [flow_of ''8.8.8.8'' ''9.9.9.9'' 7] = [] \<and>
   outgoing_small_flows_stats example_filter [flow_of ''8.8.8.8'' ''9.9.9.9'' 7] = []"
  using classifier_events [of example_filter "flow_of ''8.8.8.8'' ''10.10.0.1'' 7" "[]"]
    classifier_events [of example_filter "flow_of ''10.10.0.2'' ''10.10.0.1'' 7" "[]"]
    classifier_events [of example_filter "flow_of ''8.8.8.8'' ''9.9.9.9'' 7" "[]"]
  by (simp add: example_filter_def flow_of_def)

section \<open>The windows\<close>

text \<open>
  C5. At a tick with history \<open>hist\<close> (newest base window first), a host is absent from the
  aggregated long window exactly when none of the newest 240 base windows has an incoming
  or outgoing element for it; when it is present, items 0 and 1 of its long value are the
  sums of its short incoming and outgoing counts over those 240 base windows; base windows
  older than that do not influence the long window.
\<close>

theorem long_window_sums:
  "(map_of (long_window_aggregated pat hist) h = None \<longleftrightarrow>
      (\<forall>w \<in> set (take 240 hist). inbound_events pat w h = [] \<and> outbound_events pat w h = [])) \<and>
   (\<forall>l. map_of (long_window_aggregated pat hist) h = Some l \<longrightarrow>
      item0 l = sum_list (map (\<lambda>w. short_incoming pat w h) (take 240 hist)) \<and>
      item1 l = sum_list (map (\<lambda>w. short_outgoing pat w h) (take 240 hist))) \<and>
   long_window_aggregated pat hist = long_window_aggregated pat (take 240 hist)"
proof (intro conjI allI impI)
  show "map_of (long_window_aggregated pat hist) h = None \<longleftrightarrow>
      (\<forall>w \<in> set (take 240 hist). inbound_events pat w h = [] \<and> outbound_events pat w h = [])"
  proof -
    have "map_of (long_window_aggregated pat hist) h = None \<longleftrightarrow>
        vals h (union_long_flows pat hist) = []"
      by (simp add: long_window_aggregated_def map_of_reduceByKey split: list.splits)
    then show ?thesis
      by (simp add: vals_union_empty_iff horizon_240 no_short_tally_iff)
  qed
next
  fix l
  assume l: "map_of (long_window_aggregated pat hist) h = Some l"
  then obtain v vs where vs: "vals h (union_long_flows pat hist) = v # vs"
    and lv: "l = foldl long_merge v vs"
    by (auto simp add: long_window_aggregated_def map_of_reduceByKey split: list.splits)
  have "item0 l = sum_list (map item0 (vals h (union_long_flows pat hist)))"
    by (simp add: vs lv foldl_long_merge_items)
  then show "item0 l = sum_list (map (\<lambda>w. short_incoming pat w h) (take 240 hist))"
    by (simp add: sum_item0_union horizon_240)
  have "item1 l = sum_list (map item1 (vals h (union_long_flows pat hist)))"
    by (simp add: vs lv foldl_long_merge_items)
  then show "item1 l = sum_list (map (\<lambda>w. short_outgoing pat w h) (take 240 hist))"
    by (simp add: sum_item1_union horizon_240)
next
  show "long_window_aggregated pat hist = long_window_aggregated pat (take 240 hist)"
    by (simp add: long_window_aggregated_def union_long_flows_def window_def
        long_window_length_def base_window_length_def take_map)
qed

theorem long_window_sums_witness:
  "map_of (long_window_aggregated example_filter [attack_window, quiet_window]) ''10.10.0.1'' =
     Some (Tuple2 7000000 1000000) \<and>
   item0 (Tuple2 7000000 1000000) =
     short_incoming example_filter attack_window ''10.10.0.1'' +
     short_incoming example_filter quiet_window ''10.10.0.1'' \<and>
   item1 (Tuple2 7000000 1000000) =
     short_outgoing example_filter attack_window ''10.10.0.1'' +
     short_outgoing example_filter quiet_window ''10.10.0.1'' \<and>
   map_of (long_window_aggregated example_filter (replicate 240 [] @ [attack_window]))
     ''10.10.0.1'' = None \<and>
   set (take 240 (replicate 240 [] @ [attack_window])) = {[]} \<and>
   inbound_events example_filter [] ''10.10.0.1'' = [] \<and>
   outbound_events example_filter [] ''10.10.0.1'' = [] \<and>
   inbound_events example_filter attack_window ''10.10.0.1'' \<noteq> []"
proof -
  have h: "map_of (long_window_aggregated example_filter [attack_window, quiet_window])
     ''10.10.0.1'' = Some (Tuple2 7000000 1000000)"
    by (simp add: ex_long)
  have present: "item0 (Tuple2 7000000 1000000) =
     short_incoming example_filter attack_window ''10.10.0.1'' +
     short_incoming example_filter quiet_window ''10.10.0.1'' \<and>
   item1 (Tuple2 7000000 1000000) =
     short_outgoing example_filter attack_window ''10.10.0.1'' +
     short_outgoing example_filter quiet_window ''10.10.0.1''"
    using long_window_sums [of example_filter "[attack_window, quiet_window]" "''10.10.0.1''"] h
    by simp
  have e: "map_of (long_window_aggregated example_filter (replicate 240 [] @ [attack_window]))
     ''10.10.0.1'' = None"
    by (simp add: ex_evicted)
  have absent: "\<forall>w \<in> set (take 240 (replicate 240 [] @ [attack_window])).
      inbound_events example_filter w ''10.10.0.1'' = [] \<and>
      outbound_events example_filter w ''10.10.0.1'' = []"
    using long_window_sums [of example_filter "replicate 240 [] @ [attack_window]"
        "''10.10.0.1''"] e
    by blast
  have old: "set (take 240 (replicate 240 [] @ [attack_window])) = {[]::flow list}"
    by simp
  from absent have empty: "inbound_events example_filter [] ''10.10.0.1'' = [] \<and>
      outbound_events example_filter [] ''10.10.0.1'' = []"
    unfolding old by blast
  have active: "inbound_events example_filter attack_window ''10.10.0.1'' \<noteq> []"
    by (simp add: inbound_events_def eval_defs)
  from h present e old empty active show ?thesis by blast
qed

text \<open>
  C6. At the first tick a host with incoming traffic has one value in the long window, so
  \<open>reduceByKey\<close> never calls the reducing lambda for it: the long value is the short
  3-tuple itself, with its set of source addresses.
\<close>

theorem long_window_first_tick_keeps_sources:
  "map_of (long_window_aggregated example_filter [flood_window]) ''10.10.0.1'' =
     Some (Tuple3 500000 0 {''8.8.8.8''}) \<and>
   holds_sources (Tuple3 500000 0 {''8.8.8.8''})"
  by (simp add: ex_flood_long)

text \<open>
  C7. Every outgoing element carries the empty set; merging an outgoing element into the
  aggregation leaves the source set of every host as it was; and the source set of a host in
  the aggregated short window is the set of source addresses of the incoming elements of
  that host.
\<close>

theorem outbound_never_adds_sources:
  "(\<forall>e \<in> set (outgoing_small_flows_stats pat w). snd (snd (snd e)) = {}) \<and>
   sources_in (merge_value short_merge k (0, n, {}) d) h = sources_in d h \<and>
   sources_in (small_window_aggregated pat w) h =
     sourceIPv4Address ` set (inbound_events pat w h)"
proof (intro conjI)
  show "\<forall>e \<in> set (outgoing_small_flows_stats pat w). snd (snd (snd e)) = {}"
    by (auto simp add: outgoing_small_flows_stats_def)
  show "sources_in (merge_value short_merge k (0, n, {}) d) h = sources_in d h"
    by (simp add: sources_in_def map_of_merge_value short_merge_def split: option.splits)
  show "sources_in (small_window_aggregated pat w) h =
     sourceIPv4Address ` set (inbound_events pat w h)"
    by (rule sources_in_small_window)
qed

theorem outbound_never_adds_sources_witness:
  "outgoing_small_flows_stats example_filter attack_window = [(''10.10.0.1'', (0, 100, {}))] \<and>
   sources_in (merge_value short_merge ''10.10.0.1'' (0, 100, {})
       [(''10.10.0.1'', (150000, 0, {''8.8.8.8'', ''9.9.9.9''}))]) ''10.10.0.1'' =
     {''8.8.8.8'', ''9.9.9.9''} \<and>
   sources_in (small_window_aggregated example_filter attack_window) ''10.10.0.1'' =
     {''8.8.8.8'', ''9.9.9.9''}"
proof -
  have o: "outgoing_small_flows_stats example_filter attack_window =
      [(''10.10.0.1'', (0, 100, {}))]"
    by (simp add: eval_defs)
  from outbound_never_adds_sources [of example_filter attack_window "''10.10.0.1''" 100
      "[(''10.10.0.1'', (150000, 0, {''8.8.8.8'', ''9.9.9.9''}))]" "''10.10.0.1''"] o
  show ?thesis by (simp add: sources_in_def ex_short short_merge_def)
qed

text \<open>
  C8. The aggregated short window has one entry per host, and the sum of the incoming counts
  over its entries is the sum of the packet counts of the incoming elements, that is, of
  the flow records whose destination matches the filter.
\<close>

theorem inbound_conservation:
  "distinct (map fst (small_window_aggregated pat w)) \<and>
   sum_list (map (\<lambda>p. fst (snd p)) (small_window_aggregated pat w)) =
     sum_list (map (\<lambda>e. fst (snd e)) (incoming_small_flows_stats pat w)) \<and>
   sum_list (map (\<lambda>e. fst (snd e)) (incoming_small_flows_stats pat w)) =
     sum_list (map packetDeltaCount (filter (\<lambda>j. pat (destinationIPv4Address j)) w))"
  by (simp add: distinct_small_window_aggregated sum_small_window_aggregated
      incoming_small_flows_stats_def comp_def)

theorem inbound_conservation_witness:
  "sum_list (map (\<lambda>p. fst (snd p)) (small_window_aggregated example_filter attack_window)) =
     150000 \<and>
   sum_list (map (\<lambda>e. fst (snd e)) (incoming_small_flows_stats example_filter attack_window)) =
     100000 + 50000"
  using inbound_conservation [of example_filter attack_window]
  by (simp add: ex_short)

section \<open>The alerts\<close>

text \<open>
  C9. The attackers of every alert are the source set of the alert's host in the aggregated
  short window of the tick: the source addresses of the incoming elements of that host in
  the base window that has just closed, and nothing else.
\<close>

theorem alert_attackers:
  "\<exists>alerts. ddos_result ops pat cur past = Inr alerts \<and>
     (\<forall>a \<in> set alerts.
        attackers a = sources_in (small_window_aggregated pat cur) (dst_ip a) \<and>
        attackers a = sourceIPv4Address ` set (inbound_events pat cur (dst_ip a)))"
proof -
  let ?alerts = "map (alert_of ops)
     (filter (\<lambda>x. rule_holds ops (fst (snd x)) (snd (snd x))) (nonzero_union pat cur past))"
  have "attackers a = sources_in (small_window_aggregated pat cur) (dst_ip a)"
    if "a \<in> set ?alerts" for a
  proof -
    from alert_origin [OF that] obtain s l
      where s: "map_of (small_window_aggregated pat cur) (dst_ip a) = Some s"
        and a: "a = alert_of ops (dst_ip a, (s, l))"
      by blast
    have "attackers a = snd (snd s)" by (subst a) (simp add: alert_of_def)
    with s show ?thesis by (simp add: sources_in_def)
  qed
  then have "\<forall>a \<in> set ?alerts.
        attackers a = sources_in (small_window_aggregated pat cur) (dst_ip a) \<and>
        attackers a = sourceIPv4Address ` set (inbound_events pat cur (dst_ip a))"
    by (simp add: sources_in_small_window)
  then show ?thesis by (simp only: ddos_result_eq) blast
qed

theorem alert_attackers_witness:
  "ddos_result exact_ops example_filter attack_window [quiet_window] =
     Inr [\<lparr>dst_ip = ''10.10.0.1'', shortratio = 1500, longratio = 7,
       attackers = {''8.8.8.8'', ''9.9.9.9''}\<rparr>] \<and>
   sources_in (small_window_aggregated example_filter attack_window) ''10.10.0.1'' =
     {''8.8.8.8'', ''9.9.9.9''} \<and>
   sourceIPv4Address ` set (inbound_events example_filter attack_window ''10.10.0.1'') =
     {''8.8.8.8'', ''9.9.9.9''}"
  using alert_attackers [of exact_ops example_filter attack_window "[quiet_window]"]
  by (simp add: ex_result sources_in_def ex_short)

text \<open>
  C10. The attackers of every alert are a non-empty set.
\<close>

theorem alert_attackers_nonempty:
  "\<exists>alerts. ddos_result ops pat cur past = Inr alerts \<and>
     (\<forall>a \<in> set alerts. attackers a \<noteq> {})"
proof -
  let ?alerts = "map (alert_of ops)
     (filter (\<lambda>x. rule_holds ops (fst (snd x)) (snd (snd x))) (nonzero_union pat cur past))"
  have "attackers a \<noteq> {}" if "a \<in> set ?alerts" for a
  proof -
    from alert_origin [OF that] obtain s l
      where s: "map_of (small_window_aggregated pat cur) (dst_ip a) = Some s"
        and r: "rule_holds ops s l"
        and a: "a = alert_of ops (dst_ip a, (s, l))"
      by blast
    let ?ins = "inbound_events pat cur (dst_ip a)"
    from s have fs: "fst s = sum_list (map packetDeltaCount ?ins)"
      and ss: "snd (snd s) = sourceIPv4Address ` set ?ins"
      by (auto simp add: map_of_small_window_aggregated split: if_splits)
    from r have "fst s > 0" by (simp add: rule_holds_def minimal_incoming_def)
    with fs have "?ins \<noteq> []" by auto
    with ss have "snd (snd s) \<noteq> {}" by simp
    moreover have "attackers a = snd (snd s)" by (subst a) (simp add: alert_of_def)
    ultimately show ?thesis by simp
  qed
  then show ?thesis by (simp only: ddos_result_eq) blast
qed

theorem alert_attackers_nonempty_witness:
  "\<exists>alerts. ddos_result exact_ops example_filter attack_window [quiet_window] = Inr alerts \<and>
     alerts \<noteq> [] \<and> (\<forall>a \<in> set alerts. attackers a \<noteq> {})"
  using alert_attackers_nonempty [of exact_ops example_filter attack_window "[quiet_window]"]
  by (simp add: ex_result)

end
